theory Spec2Isabelle
  imports Main "HOL-Library.Sublist" "HOL-Library.AList"
begin

section \<open>Python strings\<close>

text \<open>
  A Python \<open>str\<close> is a sequence of code points.  The model is \<open>string\<close>, one \<open>char\<close>
  per code point, so it covers the code points below 256.  On these, \<open>str.isspace\<close>
  holds of the ASCII white space 9..13 and 28..32, of 133 (NEL) and of 160 (NBSP),
  and \<open>str.lower\<close> moves \<open>A..Z\<close> and the accented capitals 192..222 (without the
  multiplication sign 215) up by 32 and leaves every other code point alone.
  The test \<open>sub in s\<close> on strings is \<^const>\<open>sublist\<close> \<open>sub s\<close>: contiguous occurrence.
\<close>

definition isspace :: "char \<Rightarrow> bool" where
  "isspace c =
     (let n = (of_char c :: nat)
      in (9 \<le> n \<and> n \<le> 13) \<or> (28 \<le> n \<and> n \<le> 32) \<or> n = 133 \<or> n = 160)"

definition lower_char :: "char \<Rightarrow> char" where
  "lower_char c =
     (let n = (of_char c :: nat)
      in if (65 \<le> n \<and> n \<le> 90) \<or> (192 \<le> n \<and> n \<le> 222 \<and> n \<noteq> 215)
         then char_of (n + 32) else c)"

definition lower :: "string \<Rightarrow> string" where
  "lower s = map lower_char s"

definition strip :: "string \<Rightarrow> string" where
  "strip s = rev (dropWhile isspace (rev (dropWhile isspace s)))"

definition quote :: "string" where
  "quote = [CHR 0x27]"

definition nl :: "string" where
  "nl = [CHR 0x0A]"


section \<open>Data model\<close>

text \<open>
  A cell of a text column holds text or is missing (\<open>pd.isna\<close>).  A data frame is its
  column index and its rows in order, each row an association list from column name
  to cell.  \<open>pd.read_csv\<close> numbers the rows from 0 and makes the column names distinct.
\<close>

datatype cell = NaN | Str string

record dataframe =
  columns :: "string list"
  rows :: "(string \<times> cell) list list"

text \<open>
  Exceptions.  \<open>ValueError\<close> carries its message; \<open>IntValueError\<close> is the
  \<open>ValueError\<close> that \<open>int()\<close> raises, with the rejected argument; \<open>KeyError\<close> is a
  row read at a label it does not have; \<open>External\<close> is any exception raised inside
  a library call (the inference backend, the CSV reader and writer, the agent
  framework).
\<close>

datatype exn =
    ValueError string
  | IntValueError string
  | KeyError string
  | EOFError
  | External string

datatype printed = Text string | Frame dataframe

text \<open>
  The state the program acts on: the hidden state of the inference backend, the
  operator's remaining input lines, what has been printed (one entry per \<open>print\<close> or
  prompt), the classification requests sent so far as (text, column name), the data
  files read (reference documents and tables), the number of agents constructed, and
  the tables written.
\<close>

record 'w sys =
  world :: 'w
  stdin :: "string list"
  stdout :: "printed list"
  requests :: "(string \<times> string) list"
  files_read :: "string list"
  agents_created :: nat
  files_written :: "(string \<times> dataframe) list"

text \<open>
  The external collaborators, fixed during a run: the process environment and the
  contents of the \<open>.env\<close> file, the knowledge-source and agent constructors (which may
  raise), the crew run of one task (a reply or an exception, and the backend's next
  state), the file system as \<open>os.path.exists\<close>, \<open>pd.read_csv\<close> and \<open>DataFrame.to_csv\<close>
  see it, and \<open>str(e)\<close> on exceptions.
\<close>

record 'w env =
  os_environ :: "string \<rightharpoonup> string"
  dotenv :: "string \<rightharpoonup> string"
  load_pdfs :: "string list \<Rightarrow> exn option"
  new_agent :: "exn option"
  kickoff :: "'w \<Rightarrow> string \<Rightarrow> string \<Rightarrow> (exn + string) \<times> 'w"
  path_exists :: "string \<Rightarrow> bool"
  read_csv :: "string \<Rightarrow> exn + dataframe"
  to_csv :: "string \<Rightarrow> exn option"
  str_exn :: "exn \<Rightarrow> string"

definition print :: "printed \<Rightarrow> 'w sys \<Rightarrow> 'w sys" where
  "print x s = s\<lparr>stdout := stdout s @ [x]\<rparr>"


section \<open>analyze_text\<close>

text \<open>
  \<open>crew.kickoff()\<close> sends one task, built from the text and the column name, to the
  agent: a request is recorded, the backend moves on, and a reply or an exception
  comes back.
\<close>

definition crew_kickoff ::
  "'w env \<Rightarrow> string \<Rightarrow> string \<Rightarrow> 'w sys \<Rightarrow> (exn + string) \<times> 'w sys" where
  "crew_kickoff E text column_name s =
     (case kickoff E (world s) text column_name of
        (r, w') \<Rightarrow> (r, s\<lparr>world := w', requests := requests s @ [(text, column_name)]\<rparr>))"

definition unclear_warning :: "string \<Rightarrow> string" where
  "unclear_warning result_str =
     ''Warning: Unclear result from agent: '' @ quote @ result_str @ quote
       @ ''. Defaulting to '' @ quote @ ''No'' @ quote"

definition analyze_text ::
  "'w env \<Rightarrow> string \<Rightarrow> string \<Rightarrow> 'w sys \<Rightarrow> (exn + string) \<times> 'w sys" where
  "analyze_text E text column_name s =
     (case crew_kickoff E text column_name s of
        (Inl e, s1) \<Rightarrow> (Inl e, s1)
      | (Inr result, s1) \<Rightarrow>
          (let result_str = strip result
           in if sublist ''yes'' (lower result_str) then (Inr ''Yes'', s1)
              else if sublist ''no'' (lower result_str) then (Inr ''No'', s1)
              else (Inr ''No'', print (Text (unclear_warning result_str)) s1)))"


section \<open>process_csv_file\<close>

text \<open>\<open>str\<close> of a non-negative integer: its decimal digits.\<close>

fun str_nat :: "nat \<Rightarrow> string" where
  "str_nat n =
     (if n < 10 then [char_of (48 + n)]
      else str_nat (n div 10) @ [char_of (48 + n mod 10)])"

declare str_nat.simps [simp del]

definition pd_read_csv :: "'w env \<Rightarrow> string \<Rightarrow> 'w sys \<Rightarrow> (exn + dataframe) \<times> 'w sys" where
  "pd_read_csv E csv_path s = (read_csv E csv_path, s\<lparr>files_read := files_read s @ [csv_path]\<rparr>)"

definition create_contract_risk_agent :: "'w env \<Rightarrow> 'w sys \<Rightarrow> (exn + unit) \<times> 'w sys" where
  "create_contract_risk_agent E s =
     (case new_agent E of
        Some e \<Rightarrow> (Inl e, s)
      | None \<Rightarrow> (Inr (), s\<lparr>agents_created := agents_created s + 1\<rparr>))"

text \<open>
  \<open>df.iterrows()\<close> pairs each row label with the row as it is when the loop starts;
  \<open>df.at[idx, col] = v\<close> overwrites one cell of the frame.  The labels come from
  \<open>iterrows\<close> of the same frame, whose number of rows never changes, so \<open>idx\<close> is in
  range wherever \<open>df_at_set\<close> is called.
\<close>

definition iterrows :: "dataframe \<Rightarrow> (nat \<times> (string \<times> cell) list) list" where
  "iterrows df = enumerate 0 (rows df)"

definition df_at_set :: "dataframe \<Rightarrow> nat \<Rightarrow> string \<Rightarrow> cell \<Rightarrow> dataframe" where
  "df_at_set df idx col v = df\<lparr>rows := (rows df)[idx := AList.update col v (rows df ! idx)]\<rparr>"

definition row_progress :: "string \<Rightarrow> nat \<Rightarrow> nat \<Rightarrow> string" where
  "row_progress col idx n =
     ''  Analyzing row '' @ str_nat (idx + 1) @ ''/'' @ str_nat n @ '': '' @ col"

text \<open>The loop over the rows of one column (source lines 126 to 138).\<close>

fun process_rows ::
  "'w env \<Rightarrow> string \<Rightarrow> (nat \<times> (string \<times> cell) list) list \<Rightarrow> dataframe \<Rightarrow> 'w sys
     \<Rightarrow> (exn + dataframe) \<times> 'w sys" where
  "process_rows E col [] df s = (Inr df, s)"
| "process_rows E col ((idx, row) # its) df s =
     (let s1 = print (Text (row_progress col idx (length (rows df)))) s
      in case map_of row col of
           None \<Rightarrow> (Inl (KeyError col), s1)
         | Some NaN \<Rightarrow> process_rows E col its df s1
         | Some (Str text_value) \<Rightarrow>
             if text_value = [] then process_rows E col its df s1
             else (case analyze_text E text_value col s1 of
                     (Inl e, s2) \<Rightarrow> (Inl e, s2)
                   | (Inr result, s2) \<Rightarrow>
                       process_rows E col its (df_at_set df idx col (Str result)) s2))"

definition column_warning :: "string \<Rightarrow> string" where
  "column_warning col = ''Warning: Column '' @ quote @ col @ quote @ '' not found in CSV file.''"

text \<open>The loop over the selected columns (source lines 118 to 138).\<close>

fun process_columns ::
  "'w env \<Rightarrow> string list \<Rightarrow> dataframe \<Rightarrow> 'w sys \<Rightarrow> (exn + dataframe) \<times> 'w sys" where
  "process_columns E [] df s = (Inr df, s)"
| "process_columns E (col # cols) df s =
     (if col \<notin> set (columns df)
      then process_columns E cols df (print (Text (column_warning col)) s)
      else (let s1 = print (Text (nl @ ''Processing column: '' @ col)) s
            in case process_rows E col (iterrows df) df s1 of
                 (Inl e, s2) \<Rightarrow> (Inl e, s2)
               | (Inr df', s2) \<Rightarrow> process_columns E cols df' s2))"

definition process_csv_file ::
  "'w env \<Rightarrow> string \<Rightarrow> string list \<Rightarrow> 'w sys \<Rightarrow> (exn + dataframe) \<times> 'w sys" where
  "process_csv_file E csv_path text_columns s =
     (case pd_read_csv E csv_path s of
        (Inl e, s1) \<Rightarrow> (Inl e, s1)
      | (Inr df, s1) \<Rightarrow>
          (case create_contract_risk_agent E s1 of
             (Inl e, s2) \<Rightarrow> (Inl e, s2)
           | (Inr risk_agent, s2) \<Rightarrow> process_columns E text_columns df s2))"


section \<open>main\<close>

text \<open>\<open>input(prompt)\<close> writes the prompt and takes the operator's next line.\<close>

definition input :: "string \<Rightarrow> 'w sys \<Rightarrow> (exn + string) \<times> 'w sys" where
  "input prompt s =
     (let s1 = print (Text prompt) s
      in case stdin s1 of
           [] \<Rightarrow> (Inl EOFError, s1)
         | l # ls \<Rightarrow> (Inr l, s1\<lparr>stdin := ls\<rparr>))"

text \<open>\<open>s.split(sep)\<close> for a one-character separator: one more piece than separators.\<close>

fun str_split :: "char \<Rightarrow> string \<Rightarrow> string list" where
  "str_split sep [] = [[]]"
| "str_split sep (c # cs) =
     (if c = sep then [] # str_split sep cs
      else (case str_split sep cs of
              [] \<Rightarrow> [[c]]
            | w # ws \<Rightarrow> (c # w) # ws))"

fun join :: "string \<Rightarrow> string list \<Rightarrow> string" where
  "join sep [] = []"
| "join sep [x] = x"
| "join sep (x # y # ys) = x @ sep @ join sep (y # ys)"

text \<open>
  \<open>int(x)\<close> on a string: white space around it is ignored, then an optional sign,
  then decimal digits, where single underscores may stand between digits.  Anything
  else, and a literal of more than 4300 digits, raises \<open>ValueError\<close>.
\<close>

definition isdigit :: "char \<Rightarrow> bool" where
  "isdigit c = (let n = (of_char c :: nat) in 48 \<le> n \<and> n \<le> 57)"

fun int_literal :: "string \<Rightarrow> bool" where
  "int_literal [] = False"
| "int_literal [c] = isdigit c"
| "int_literal (c # d # cs) =
     (isdigit c \<and> (if d = CHR ''_'' then int_literal cs else int_literal (d # cs)))"

definition py_int :: "string \<Rightarrow> exn + int" where
  "py_int x =
     (let t = strip x;
          body = (case t of
                    [] \<Rightarrow> []
                  | c # cs \<Rightarrow> if c = CHR ''+'' \<or> c = CHR ''-'' then cs else t);
          negative = (case t of [] \<Rightarrow> False | c # cs \<Rightarrow> c = CHR ''-'');
          digits = filter isdigit body
      in if \<not> int_literal body \<or> length digits > 4300 then Inl (IntValueError x)
         else (let n = foldl (\<lambda>a c. 10 * a + (int (of_char c) - 48)) 0 digits
               in Inr (if negative then - n else n)))"

text \<open>
  Source line 168, \<open>[int(idx.strip()) - 1 for idx in col_input.split(",")]\<close>: the
  tokens are converted from left to right and the first failure raises.
\<close>

fun col_indices_of :: "string list \<Rightarrow> exn + int list" where
  "col_indices_of [] = Inr []"
| "col_indices_of (idx # idxs) =
     (case py_int (strip idx) of
        Inl e \<Rightarrow> Inl e
      | Inr n \<Rightarrow>
          (case col_indices_of idxs of
             Inl e \<Rightarrow> Inl e
           | Inr ns \<Rightarrow> Inr ((n - 1) # ns)))"

text \<open>
  Source line 169,
  \<open>[df.columns[idx] for idx in col_indices if 0 <= idx < len(df.columns)]\<close>.
\<close>

definition text_columns_of :: "dataframe \<Rightarrow> int list \<Rightarrow> string list" where
  "text_columns_of df col_indices =
     [columns df ! nat idx. idx \<leftarrow> col_indices, 0 \<le> idx \<and> idx < int (length (columns df))]"

text \<open>Source lines 175 to 188: classify the selected columns, show and save.\<close>

definition classify_and_save ::
  "'w env \<Rightarrow> string \<Rightarrow> string list \<Rightarrow> 'w sys \<Rightarrow> (exn + unit) \<times> 'w sys" where
  "classify_and_save E csv_path text_columns s =
     (let s1 = print (Text (nl @ ''Analyzing columns: '' @ join '', '' text_columns)) s
      in case process_csv_file E csv_path text_columns s1 of
           (Inl e, s2) \<Rightarrow> (Inl e, s2)
         | (Inr result_df, s2) \<Rightarrow>
             (let s3 = print (Frame result_df) (print (Text (nl @ ''Classification Complete!'')) s2)
              in case input (nl @ ''Enter a file path to save results (or press Enter to skip): '') s3 of
                   (Inl e, s4) \<Rightarrow> (Inl e, s4)
                 | (Inr save_path, s4) \<Rightarrow>
                     if save_path = [] then (Inr (), s4)
                     else (case to_csv E save_path of
                             Some e \<Rightarrow> (Inl e, s4)
                           | None \<Rightarrow>
                               (Inr (), print (Text (''Results saved to '' @ save_path))
                                  (s4\<lparr>files_written := files_written s4 @ [(save_path, result_df)]\<rparr>)))))"

text \<open>The body of the \<open>try\<close> block (source lines 160 to 188).\<close>

definition main_try :: "'w env \<Rightarrow> string \<Rightarrow> 'w sys \<Rightarrow> (exn + unit) \<times> 'w sys" where
  "main_try E csv_path s =
     (case pd_read_csv E csv_path s of
        (Inl e, s1) \<Rightarrow> (Inl e, s1)
      | (Inr df, s1) \<Rightarrow>
          (let s2 = print (Text (nl @ ''Available columns:'')) s1;
               s3 = fold (\<lambda>(i, col). print (Text (str_nat (i + 1) @ ''. '' @ col)))
                      (enumerate 0 (columns df)) s2
           in case input (nl @ ''Enter the numbers of text columns to analyze (comma-separated): '') s3 of
                (Inl e, s4) \<Rightarrow> (Inl e, s4)
              | (Inr col_input, s4) \<Rightarrow>
                  (case col_indices_of (str_split (CHR '','') col_input) of
                     Inl e \<Rightarrow> (Inl e, s4)
                   | Inr col_indices \<Rightarrow>
                       (let text_columns = text_columns_of df col_indices
                        in if text_columns = []
                           then (Inr (), print (Text ''No valid columns selected.'') s4)
                           else classify_and_save E csv_path text_columns s4))))"

text \<open>
  \<open>main\<close>: the first prompt is outside the \<open>try\<close>; every exception of the body is
  caught and reported, and \<open>main\<close> returns.
\<close>

definition main :: "'w env \<Rightarrow> 'w sys \<Rightarrow> (exn + unit) \<times> 'w sys" where
  "main E s =
     (let s1 = print (Text ''This system analyzes contract text and classifies risk based on guidelines.'')
                 (print (Text ''----------------------------------'')
                    (print (Text ''Contract Risk Classification System'') s))
      in case input ''Enter the path to your CSV file: '' s1 of
           (Inl e, s2) \<Rightarrow> (Inl e, s2)
         | (Inr csv_path, s2) \<Rightarrow>
             if \<not> path_exists E csv_path
             then (Inr (), print (Text (''Error: File '' @ quote @ csv_path @ quote @ '' not found.'')) s2)
             else (case main_try E csv_path s2 of
                     (Inl e, s3) \<Rightarrow> (Inr (), print (Text (''An error occurred: '' @ str_exn E e)) s3)
                   | (Inr u, s3) \<Rightarrow> (Inr (), s3)))"


section \<open>Startup\<close>

text \<open>
  \<open>load_dotenv()\<close> adds the variables of the \<open>.env\<close> file that the process environment
  does not already have.  The module then looks the API key up, raises if it is
  \<open>None\<close> or empty, builds the knowledge source from the reference documents, and
  runs \<open>main\<close>.
\<close>

definition load_dotenv :: "(string \<rightharpoonup> string) \<Rightarrow> (string \<rightharpoonup> string) \<Rightarrow> (string \<rightharpoonup> string)" where
  "load_dotenv file environ = file ++ environ"

definition pdf_files :: "string list" where
  "pdf_files =
     [''2015_UGC_09-16-15.pdf'', ''3560-1Chapter09.pdf'', ''ContractTypes.pdf'',
      ''Contracts-for-Contractors.pdf'', ''Guide-Construction-Contracts.pdf'',
      ''construction-contracting-options-4-pg.pdf'']"

definition PDFKnowledgeSource :: "'w env \<Rightarrow> string list \<Rightarrow> 'w sys \<Rightarrow> (exn + unit) \<times> 'w sys" where
  "PDFKnowledgeSource E file_paths s =
     (case load_pdfs E file_paths of
        Some e \<Rightarrow> (Inl e, s\<lparr>files_read := files_read s @ file_paths\<rparr>)
      | None \<Rightarrow> (Inr (), s\<lparr>files_read := files_read s @ file_paths\<rparr>))"

definition run_module :: "'w env \<Rightarrow> 'w sys \<Rightarrow> (exn + unit) \<times> 'w sys" where
  "run_module E s =
     (let environ = load_dotenv (dotenv E) (os_environ E);
          OPENAI_API_KEY = environ ''OPENAI_API_KEY''
      in if OPENAI_API_KEY = None \<or> OPENAI_API_KEY = Some []
         then (Inl (ValueError ''OPENAI_API_KEY environment variable is not set''), s)
         else (case PDFKnowledgeSource E pdf_files s of
                 (Inl e, s1) \<Rightarrow> (Inl e, s1)
               | (Inr pdf_source, s1) \<Rightarrow> main E s1))"


section \<open>Notions used to state the properties\<close>

text \<open>
  The cells of one column in row order, as the rows give them; the non-empty texts
  among them, which are what one pass over the column submits to the agent; and the
  relation between a cell before a pass over its column and after it.
\<close>

definition column_cells :: "dataframe \<Rightarrow> string \<Rightarrow> cell option list" where
  "column_cells df col = map (\<lambda>row. map_of row col) (rows df)"

fun texts :: "cell option list \<Rightarrow> string list" where
  "texts [] = []"
| "texts (Some (Str t) # cs) = (if t = [] then texts cs else t # texts cs)"
| "texts (Some NaN # cs) = texts cs"
| "texts (None # cs) = texts cs"

fun classified :: "cell option \<Rightarrow> cell option \<Rightarrow> bool" where
  "classified (Some (Str t)) new =
     (if t = [] then new = Some (Str []) else new = Some (Str ''Yes'') \<or> new = Some (Str ''No''))"
| "classified (Some NaN) new = (new = Some NaN)"
| "classified None new = False"

text \<open>The texts submitted for one column among a list of requests.\<close>

definition requests_for :: "string \<Rightarrow> (string \<times> string) list \<Rightarrow> string list" where
  "requests_for col rs = map fst (filter (\<lambda>(text, column_name). column_name = col) rs)"

text \<open>What \<open>main\<close> has printed when it has read the column selection.\<close>

definition prompts_shown :: "dataframe \<Rightarrow> printed list" where
  "prompts_shown df =
     [Text ''Contract Risk Classification System'',
      Text ''----------------------------------'',
      Text ''This system analyzes contract text and classifies risk based on guidelines.'',
      Text ''Enter the path to your CSV file: '',
      Text (nl @ ''Available columns:'')]
     @ map (\<lambda>(i, col). Text (str_nat (i + 1) @ ''. '' @ col)) (enumerate 0 (columns df))
     @ [Text (nl @ ''Enter the numbers of text columns to analyze (comma-separated): '')]"


section \<open>A deterministic stub of the collaborators\<close>

text \<open>
  For running the model on concrete inputs: the agent's reply is a function of the
  text and the column name, and the file system is a function from paths to tables.
\<close>

definition stub_env ::
  "(string \<Rightarrow> string \<Rightarrow> string) \<Rightarrow> (string \<Rightarrow> exn + dataframe) \<Rightarrow> unit env" where
  "stub_env reply csv =
     \<lparr>os_environ = [''OPENAI_API_KEY'' \<mapsto> ''sk-test''], dotenv = Map.empty,
      load_pdfs = (\<lambda>_. None), new_agent = None,
      kickoff = (\<lambda>w text column_name. (Inr (reply text column_name), w)),
      path_exists = (\<lambda>p. \<not> isl (csv p)), read_csv = csv, to_csv = (\<lambda>_. None),
      str_exn = (\<lambda>_. ''error'')\<rparr>"

definition init_sys :: "string list \<Rightarrow> unit sys" where
  "init_sys inp =
     \<lparr>world = (), stdin = inp, stdout = [], requests = [], files_read = [],
      agents_created = 0, files_written = []\<rparr>"

definition no_csv :: "string \<Rightarrow> exn + dataframe" where
  "no_csv p = Inl (External ''No such file'')"

text \<open>The table of the specification's scenario: one column, the second cell empty.\<close>

definition clause_df :: dataframe where
  "clause_df =
     \<lparr>columns = [''ClauseText''],
      rows = [[(''ClauseText'', Str ''Payment due on delivery.'')],
              [(''ClauseText'', Str [])],
              [(''ClauseText'', Str ''Unlimited liability with no cap.'')]]\<rparr>"

definition clause_csv :: "string \<Rightarrow> exn + dataframe" where
  "clause_csv p = (if p = ''contracts.csv'' then Inr clause_df else Inl (External ''No such file''))"

text \<open>
  The scenario's agent: it objects to a text that mentions \<open>no cap\<close> and accepts any
  other.
\<close>

definition scenario_reply :: "string \<Rightarrow> string \<Rightarrow> string" where
  "scenario_reply text column_name =
     (if sublist ''no cap'' text then ''No.'' else ''I believe this is acceptable - Yes.'')"

definition scenario_env :: "unit env" where
  "scenario_env = stub_env scenario_reply clause_csv"

text \<open>A reply with white space around it: two blanks in front, a line break behind.\<close>

definition maybe_reply :: string where
  "maybe_reply = ''  Maybe.'' @ nl"

section \<open>Facts about strings\<close>

lemma isspace_lower_char: "isspace c \<Longrightarrow> lower_char c = c"
  by (auto simp: isspace_def lower_char_def Let_def)

lemma isspace_not_keyword:
  "isspace c \<Longrightarrow> lower_char c \<notin> set ''yes''"
  "isspace c \<Longrightarrow> lower_char c \<notin> set ''no''"
  by (auto simp: isspace_lower_char) (auto simp: isspace_def)

text \<open>\<open>strip\<close> removes a run of white space at each end and nothing else.\<close>

lemma strip_decomp:
  "\<exists>a b. s = a @ strip s @ b \<and> (\<forall>c\<in>set a. isspace c) \<and> (\<forall>c\<in>set b. isspace c)"
proof -
  let ?a = "takeWhile isspace s"
  let ?m = "dropWhile isspace s"
  let ?b = "rev (takeWhile isspace (rev ?m))"
  have split1: "s = ?a @ ?m" by simp
  have "rev ?m = takeWhile isspace (rev ?m) @ dropWhile isspace (rev ?m)" by simp
  then have "?m = rev (dropWhile isspace (rev ?m)) @ ?b"
    by (metis rev_append rev_rev_ident)
  then have split2: "?m = strip s @ ?b" by (simp add: strip_def)
  have a: "\<forall>c\<in>set ?a. isspace c" by (auto dest: set_takeWhileD)
  have b: "\<forall>c\<in>set ?b. isspace c" by (auto dest: set_takeWhileD)
  from split1 split2 have "s = ?a @ strip s @ ?b" by metis
  with a b show ?thesis by blast
qed

lemma sublist_skip_front:
  "sub \<noteq> [] \<Longrightarrow> \<forall>c\<in>set a. c \<notin> set sub \<Longrightarrow> sublist sub (a @ m) = sublist sub m"
proof (induction a)
  case Nil
  then show ?case by simp
next
  case (Cons x a)
  then obtain y ys where "sub = y # ys" by (cases sub) auto
  with Cons show ?case by (auto simp: sublist_Cons_right)
qed

lemma sublist_skip_back:
  assumes "sub \<noteq> []" and "\<forall>c\<in>set b. c \<notin> set sub"
  shows "sublist sub (m @ b) = sublist sub m"
proof -
  have "sublist (rev sub) (rev b @ rev m) = sublist (rev sub) (rev m)"
    using assms by (intro sublist_skip_front) auto
  then show ?thesis by (metis rev_append sublist_rev)
qed

text \<open>Stripping the reply does not change whether a keyword occurs in it.\<close>

lemma keyword_in_strip:
  assumes "sub = ''yes'' \<or> sub = ''no''"
  shows "sublist sub (lower (strip s)) = sublist sub (lower s)"
proof -
  obtain a b where s: "s = a @ strip s @ b"
    and a: "\<forall>c\<in>set a. isspace c" and b: "\<forall>c\<in>set b. isspace c"
    using strip_decomp by blast
  have "lower s = lower a @ lower (strip s) @ lower b"
    by (subst s) (simp add: lower_def)
  moreover have "\<forall>c\<in>set (lower a). c \<notin> set sub" "\<forall>c\<in>set (lower b). c \<notin> set sub"
    using a b assms isspace_not_keyword by (auto simp: lower_def)
  moreover have "sub \<noteq> []" using assms by auto
  ultimately show ?thesis
    by (metis sublist_skip_front sublist_skip_back append_assoc)
qed

lemma yes_in_strip: "sublist ''yes'' (lower (strip s)) = sublist ''yes'' (lower s)"
  by (rule keyword_in_strip) simp

lemma no_in_strip: "sublist ''no'' (lower (strip s)) = sublist ''no'' (lower s)"
  by (rule keyword_in_strip) simp


section \<open>The label normalizer\<close>

text \<open>What \<open>analyze_text\<close> does once the agent has replied.\<close>

lemma analyze_text_reply:
  assumes "kickoff E (world s) text column_name = (Inr reply, w')"
  shows "analyze_text E text column_name s =
           (let s1 = s\<lparr>world := w', requests := requests s @ [(text, column_name)]\<rparr>
            in if sublist ''yes'' (lower reply) then (Inr ''Yes'', s1)
               else if sublist ''no'' (lower reply) then (Inr ''No'', s1)
               else (Inr ''No'', print (Text (unclear_warning (strip reply))) s1))"
  using assms
  by (simp add: analyze_text_def crew_kickoff_def Let_def yes_in_strip no_in_strip)

lemma analyze_text_success:
  assumes "analyze_text E text column_name s = (Inr result, s')"
  shows "result = ''Yes'' \<or> result = ''No''"
    and "requests s' = requests s @ [(text, column_name)]"
  using assms
  by (auto simp: analyze_text_def crew_kickoff_def print_def Let_def
           split: prod.splits sum.splits if_splits)

text \<open>
  C1 (as the code has it).  The reply \<open>Unclear, cannot determine.\<close> contains \<open>no\<close>, inside
  \<open>cannot\<close>, and does not contain \<open>yes\<close>: the normalizer returns \<open>No\<close> through the second
  branch and prints nothing.
\<close>

theorem unclear_cannot_determine_no_warning:
  assumes "kickoff E (world s) text column_name = (Inr ''Unclear, cannot determine.'', w')"
  shows "fst (analyze_text E text column_name s) = Inr ''No'' \<and>
         stdout (snd (analyze_text E text column_name s)) = stdout s"
proof -
  have no: "sublist ''no'' (lower ''Unclear, cannot determine.'')" by code_simp
  have yes: "\<not> sublist ''yes'' (lower ''Unclear, cannot determine.'')" by code_simp
  show ?thesis
    by (simp add: analyze_text_reply [OF assms] Let_def no yes)
qed

theorem unclear_cannot_determine_no_warning_witness:
  "kickoff (stub_env (\<lambda>text column_name. ''Unclear, cannot determine.'') no_csv)
     (world (init_sys [])) ''Either party may terminate.'' ''ClauseText''
     = (Inr ''Unclear, cannot determine.'', ()) \<and>
   fst (analyze_text (stub_env (\<lambda>text column_name. ''Unclear, cannot determine.'') no_csv)
          ''Either party may terminate.'' ''ClauseText'' (init_sys [])) = Inr ''No'' \<and>
   stdout (snd (analyze_text (stub_env (\<lambda>text column_name. ''Unclear, cannot determine.'') no_csv)
          ''Either party may terminate.'' ''ClauseText'' (init_sys []))) = stdout (init_sys [])"
proof -
  have k: "kickoff (stub_env (\<lambda>text column_name. ''Unclear, cannot determine.'') no_csv)
     (world (init_sys [])) ''Either party may terminate.'' ''ClauseText''
     = (Inr ''Unclear, cannot determine.'', ())"
    by (simp add: stub_env_def)
  from unclear_cannot_determine_no_warning [OF k] k show ?thesis by simp
qed

text \<open>
  C1 (as stated) fails: on this reply nothing at all is printed, so no warning.
\<close>

theorem unclear_cannot_determine_counterexample:
  "analyze_text (stub_env (\<lambda>text column_name. ''Unclear, cannot determine.'') no_csv)
      ''Either party may terminate.'' ''ClauseText'' (init_sys [])
   = (Inr ''No'', (init_sys []) \<lparr>requests := [(''Either party may terminate.'', ''ClauseText'')]\<rparr>) \<and>
   stdout ((init_sys []) \<lparr>requests := [(''Either party may terminate.'', ''ClauseText'')]\<rparr>) = []"
  by code_simp

text \<open>
  C2.  A reply that contains \<open>yes\<close> in any letter case, at any position, is normalized to
  \<open>Yes\<close>, whatever else it contains.
\<close>

theorem yes_anywhere_gives_Yes:
  assumes "kickoff E (world s) text column_name = (Inr reply, w')"
    and "sublist ''yes'' (lower reply)"
  shows "fst (analyze_text E text column_name s) = Inr ''Yes''"
  by (simp add: analyze_text_reply [OF assms(1)] Let_def assms(2))

theorem yes_anywhere_gives_Yes_witness:
  "sublist ''yes'' (lower ''No, this is not a YES case'') \<and>
   sublist ''no'' (lower ''No, this is not a YES case'') \<and>
   fst (analyze_text (stub_env (\<lambda>text column_name. ''No, this is not a YES case'') no_csv)
          ''Net 30.'' ''Terms'' (init_sys [])) = Inr ''Yes''"
proof -
  have k: "kickoff (stub_env (\<lambda>text column_name. ''No, this is not a YES case'') no_csv)
     (world (init_sys [])) ''Net 30.'' ''Terms'' = (Inr ''No, this is not a YES case'', ())"
    by (simp add: stub_env_def)
  have yes: "sublist ''yes'' (lower ''No, this is not a YES case'')" by code_simp
  have no: "sublist ''no'' (lower ''No, this is not a YES case'')" by code_simp
  from yes_anywhere_gives_Yes [OF k yes] yes no show ?thesis by simp
qed

text \<open>
  C3.  A reply that contains \<open>no\<close> and does not contain \<open>yes\<close> (both in any letter case) is
  normalized to \<open>No\<close>.
\<close>

theorem no_without_yes_gives_No:
  assumes "kickoff E (world s) text column_name = (Inr reply, w')"
    and "sublist ''no'' (lower reply)"
    and "\<not> sublist ''yes'' (lower reply)"
  shows "fst (analyze_text E text column_name s) = Inr ''No''"
  by (simp add: analyze_text_reply [OF assms(1)] Let_def assms(2,3))

theorem no_without_yes_gives_No_witness:
  "sublist ''no'' (lower ''NO - uncapped liability.'') \<and>
   \<not> sublist ''yes'' (lower ''NO - uncapped liability.'') \<and>
   fst (analyze_text (stub_env (\<lambda>text column_name. ''NO - uncapped liability.'') no_csv)
          ''Unlimited liability.'' ''ClauseText'' (init_sys [])) = Inr ''No''"
proof -
  have k: "kickoff (stub_env (\<lambda>text column_name. ''NO - uncapped liability.'') no_csv)
     (world (init_sys [])) ''Unlimited liability.'' ''ClauseText''
     = (Inr ''NO - uncapped liability.'', ())"
    by (simp add: stub_env_def)
  have no: "sublist ''no'' (lower ''NO - uncapped liability.'')" by code_simp
  have yes: "\<not> sublist ''yes'' (lower ''NO - uncapped liability.'')" by code_simp
  from no_without_yes_gives_No [OF k no yes] yes no show ?thesis by simp
qed

text \<open>
  C4 (as the code has it).  When the reply contains neither keyword, the normalizer
  returns \<open>No\<close> and prints one warning, which contains the reply with the white space at
  its two ends removed; in every other case it prints nothing.
\<close>

theorem unclear_reply_warns:
  assumes "kickoff E (world s) text column_name = (Inr reply, w')"
  shows "stdout (snd (analyze_text E text column_name s)) =
           (if \<not> sublist ''yes'' (lower reply) \<and> \<not> sublist ''no'' (lower reply)
            then stdout s @ [Text (unclear_warning (strip reply))] else stdout s) \<and>
         sublist (strip reply) (unclear_warning (strip reply)) \<and>
         (\<not> sublist ''yes'' (lower reply) \<and> \<not> sublist ''no'' (lower reply) \<longrightarrow>
            fst (analyze_text E text column_name s) = Inr ''No'')"
proof -
  have "sublist (strip reply) (unclear_warning (strip reply))"
    unfolding unclear_warning_def sublist_def by (metis append_assoc)
  then show ?thesis
    by (simp add: analyze_text_reply [OF assms] Let_def print_def)
qed

theorem unclear_reply_warns_witness:
  "\<not> sublist ''yes'' (lower maybe_reply) \<and> \<not> sublist ''no'' (lower maybe_reply) \<and>
   fst (analyze_text (stub_env (\<lambda>text column_name. maybe_reply) no_csv)
          ''Net 30.'' ''Terms'' (init_sys [])) = Inr ''No'' \<and>
   stdout (snd (analyze_text (stub_env (\<lambda>text column_name. maybe_reply) no_csv)
          ''Net 30.'' ''Terms'' (init_sys []))) = [Text (unclear_warning ''Maybe.'')] \<and>
   sublist ''Maybe.'' (unclear_warning ''Maybe.'')"
proof -
  have k: "kickoff (stub_env (\<lambda>text column_name. maybe_reply) no_csv)
     (world (init_sys [])) ''Net 30.'' ''Terms'' = (Inr maybe_reply, ())"
    by (simp add: stub_env_def)
  have yes: "\<not> sublist ''yes'' (lower maybe_reply)" by code_simp
  have no: "\<not> sublist ''no'' (lower maybe_reply)" by code_simp
  have st: "strip maybe_reply = ''Maybe.''" by code_simp
  have out: "stdout (init_sys []) = []" by (simp add: init_sys_def)
  from unclear_reply_warns [OF k] yes no show ?thesis by (simp add: st out)
qed

text \<open>
  C4 (as stated) fails: the reply \<open>Maybe.\<close> with two blanks in front and a line break
  behind contains neither keyword, and the warning printed for it does not contain
  that reply.
\<close>

theorem unclear_reply_counterexample:
  "\<not> sublist ''yes'' (lower maybe_reply) \<and> \<not> sublist ''no'' (lower maybe_reply) \<and>
   stdout (snd (analyze_text (stub_env (\<lambda>text column_name. maybe_reply) no_csv)
          ''Net 30.'' ''Terms'' (init_sys [])))
     = [Text (''Warning: Unclear result from agent: '' @ quote @ ''Maybe.'' @ quote
                @ ''. Defaulting to '' @ quote @ ''No'' @ quote)] \<and>
   \<not> sublist maybe_reply
       (''Warning: Unclear result from agent: '' @ quote @ ''Maybe.'' @ quote
          @ ''. Defaulting to '' @ quote @ ''No'' @ quote)"
  by code_simp


section \<open>The loop over the rows\<close>

lemma requests_print [simp]: "requests (print x s) = requests s"
  by (simp add: print_def)

lemma process_rows_Cons_success:
  assumes "process_rows E col ((idx, row) # its) df s = (Inr df', s')"
  shows "((map_of row col = Some NaN \<or> map_of row col = Some (Str [])) \<and>
          process_rows E col its df (print (Text (row_progress col idx (length (rows df)))) s)
            = (Inr df', s')) \<or>
         (\<exists>t result s2. map_of row col = Some (Str t) \<and> t \<noteq> [] \<and>
            analyze_text E t col (print (Text (row_progress col idx (length (rows df)))) s)
              = (Inr result, s2) \<and>
            process_rows E col its (df_at_set df idx col (Str result)) s2 = (Inr df', s'))"
  using assms
  by (simp add: Let_def split: option.splits cell.splits if_splits prod.splits sum.splits)

lemma process_rows_ConsE [consumes 1, case_names skip classify]:
  assumes "process_rows E col ((idx, row) # its) df s = (Inr df', s')"
  obtains
    (skip) "map_of row col = Some NaN \<or> map_of row col = Some (Str [])"
      "process_rows E col its df (print (Text (row_progress col idx (length (rows df)))) s)
         = (Inr df', s')"
  | (classify) t result s2 where "map_of row col = Some (Str t)" "t \<noteq> []"
      "analyze_text E t col (print (Text (row_progress col idx (length (rows df)))) s)
         = (Inr result, s2)"
      "process_rows E col its (df_at_set df idx col (Str result)) s2 = (Inr df', s')"
  using process_rows_Cons_success [OF assms] by blast

lemma process_rows_shape:
  "process_rows E col its df s = (Inr df', s') \<Longrightarrow>
   columns df' = columns df \<and> length (rows df') = length (rows df)"
proof (induction its arbitrary: df s)
  case Nil
  then show ?case by simp
next
  case (Cons a its)
  obtain idx row where a: "a = (idx, row)" by (cases a)
  from Cons.prems [unfolded a] show ?case
  proof (cases rule: process_rows_ConsE)
    case skip
    from Cons.IH [OF skip(2)] show ?thesis .
  next
    case (classify t result s2)
    from Cons.IH [OF classify(4)] show ?thesis by (simp add: df_at_set_def)
  qed
qed

text \<open>Cells outside the column, and cells of rows the loop does not visit, keep their value.\<close>

lemma process_rows_elsewhere:
  "process_rows E col its df s = (Inr df', s') \<Longrightarrow> j < length (rows df) \<Longrightarrow>
   c \<noteq> col \<or> j \<notin> fst ` set its \<Longrightarrow>
   map_of (rows df' ! j) c = map_of (rows df ! j) c"
proof (induction its arbitrary: df s)
  case Nil
  then show ?case by simp
next
  case (Cons a its)
  obtain idx row where a: "a = (idx, row)" by (cases a)
  have side: "c \<noteq> col \<or> j \<notin> fst ` set its" using Cons.prems(3) by auto
  from Cons.prems(1) [unfolded a] show ?case
  proof (cases rule: process_rows_ConsE)
    case skip
    from Cons.IH [OF skip(2) Cons.prems(2) side] show ?thesis .
  next
    case (classify t result s2)
    have len: "j < length (rows (df_at_set df idx col (Str result)))"
      using Cons.prems(2) by (simp add: df_at_set_def)
    have "map_of (rows (df_at_set df idx col (Str result)) ! j) c = map_of (rows df ! j) c"
      using Cons.prems(2,3) a
      by (cases "j = idx") (auto simp: df_at_set_def update_conv')
    with Cons.IH [OF classify(4) len side] show ?thesis by simp
  qed
qed

text \<open>The cell of a visited row: kept when the row read at the start is empty there, a label otherwise.\<close>

lemma process_rows_visited:
  "process_rows E col its df s = (Inr df', s') \<Longrightarrow> distinct (map fst its) \<Longrightarrow>
   \<forall>(i, r)\<in>set its. i < length (rows df) \<Longrightarrow> (j, row) \<in> set its \<Longrightarrow>
   (case map_of row col of
      None \<Rightarrow> False
    | Some NaN \<Rightarrow> map_of (rows df' ! j) col = map_of (rows df ! j) col
    | Some (Str t) \<Rightarrow>
        if t = [] then map_of (rows df' ! j) col = map_of (rows df ! j) col
        else map_of (rows df' ! j) col = Some (Str ''Yes'') \<or>
             map_of (rows df' ! j) col = Some (Str ''No''))"
proof (induction its arbitrary: df s)
  case Nil
  then show ?case by simp
next
  case (Cons a its)
  obtain idx r where a: "a = (idx, r)" by (cases a)
  have dist: "distinct (map fst its)" and fresh: "idx \<notin> fst ` set its"
    using Cons.prems(2) a by auto
  have idx: "idx < length (rows df)" and bound: "\<forall>(i, r)\<in>set its. i < length (rows df)"
    using Cons.prems(3) a by auto
  from Cons.prems(1) [unfolded a] show ?case
  proof (cases rule: process_rows_ConsE)
    case skip
    show ?thesis
    proof (cases "(j, row) = (idx, r)")
      case True
      with process_rows_elsewhere [OF skip(2) idx] fresh skip(1) show ?thesis by auto
    next
      case False
      with Cons.prems(4) a have "(j, row) \<in> set its" by auto
      from Cons.IH [OF skip(2) dist bound this] show ?thesis .
    qed
  next
    case (classify t result s2)
    let ?df1 = "df_at_set df idx col (Str result)"
    have len1: "length (rows ?df1) = length (rows df)" by (simp add: df_at_set_def)
    have lab: "result = ''Yes'' \<or> result = ''No''" using analyze_text_success(1) [OF classify(3)] .
    show ?thesis
    proof (cases "(j, row) = (idx, r)")
      case True
      have "map_of (rows df' ! idx) col = map_of (rows ?df1 ! idx) col"
        using process_rows_elsewhere [OF classify(4) _ disjI2 [OF fresh]] idx len1 by simp
      also have "\<dots> = Some (Str result)"
        using idx by (simp add: df_at_set_def update_conv')
      finally show ?thesis using True classify(1,2) lab by auto
    next
      case False
      with Cons.prems(4) a have mem: "(j, row) \<in> set its" by auto
      then have "j \<noteq> idx" using fresh by force
      then have same: "map_of (rows ?df1 ! j) col = map_of (rows df ! j) col"
        by (simp add: df_at_set_def)
      from bound len1 have "\<forall>(i, r)\<in>set its. i < length (rows ?df1)" by simp
      from Cons.IH [OF classify(4) dist this mem] same show ?thesis
        by (auto split: option.splits cell.splits if_splits)
    qed
  qed
qed

lemma process_rows_requests:
  "process_rows E col its df s = (Inr df', s') \<Longrightarrow>
   requests s' = requests s @ map (\<lambda>t. (t, col)) (texts (map (\<lambda>(i, r). map_of r col) its))"
proof (induction its arbitrary: df s)
  case Nil
  then show ?case by simp
next
  case (Cons a its)
  obtain idx r where a: "a = (idx, r)" by (cases a)
  from Cons.prems(1) [unfolded a] show ?case
  proof (cases rule: process_rows_ConsE)
    case skip
    with Cons.IH [OF skip(2)] a show ?thesis by auto
  next
    case (classify t result s2)
    with Cons.IH [OF classify(4)] analyze_text_success(2) [OF classify(3)] a show ?thesis by simp
  qed
qed

section \<open>The loop over the columns\<close>

text \<open>One pass over a column that exists.\<close>

lemma iterrows_props:
  "distinct (map fst (iterrows df))"
  "\<forall>(i, r)\<in>set (iterrows df). i < length (rows df)"
  "j < length (rows df) \<Longrightarrow> (j, rows df ! j) \<in> set (iterrows df)"
  "map (\<lambda>(i, r). map_of r col) (iterrows df) = column_cells df col"
proof -
  show "distinct (map fst (iterrows df))"
    by (simp add: iterrows_def)
  show "\<forall>(i, r)\<in>set (iterrows df). i < length (rows df)"
    by (auto simp: iterrows_def in_set_enumerate_eq)
  show "(j, rows df ! j) \<in> set (iterrows df)" if "j < length (rows df)"
    using that by (simp add: iterrows_def in_set_enumerate_eq)
  show "map (\<lambda>(i, r). map_of r col) (iterrows df) = column_cells df col"
    by (rule nth_equalityI) (simp_all add: iterrows_def column_cells_def nth_enumerate_eq)
qed

lemma classified_cases:
  "classified old new =
     (case old of
        None \<Rightarrow> False
      | Some NaN \<Rightarrow> new = Some NaN
      | Some (Str t) \<Rightarrow>
          if t = [] then new = Some (Str [])
          else new = Some (Str ''Yes'') \<or> new = Some (Str ''No''))"
  by (cases "(old, new)" rule: classified.cases) auto

lemma pass_column:
  assumes "process_rows E col (iterrows df) df s = (Inr df', s')"
  shows "columns df' = columns df"
    and "length (rows df') = length (rows df)"
    and "c \<noteq> col \<Longrightarrow> column_cells df' c = column_cells df c"
    and "list_all2 classified (column_cells df col) (column_cells df' col)"
    and "requests s' = requests s @ map (\<lambda>t. (t, col)) (texts (column_cells df col))"
proof -
  show "columns df' = columns df" and len: "length (rows df') = length (rows df)"
    using process_rows_shape [OF assms] by auto
  show "column_cells df' c = column_cells df c" if "c \<noteq> col"
    using process_rows_elsewhere [OF assms _ disjI1 [OF that]] len
    by (auto simp: column_cells_def intro!: nth_equalityI)
  show "list_all2 classified (column_cells df col) (column_cells df' col)"
  proof (rule list_all2_all_nthI)
    show "length (column_cells df col) = length (column_cells df' col)"
      using len by (simp add: column_cells_def)
  next
    fix j assume "j < length (column_cells df col)"
    then have j: "j < length (rows df)" by (simp add: column_cells_def)
    from process_rows_visited [OF assms iterrows_props(1,2) iterrows_props(3) [OF j]]
    have "classified (map_of (rows df ! j) col) (map_of (rows df' ! j) col)"
      by (auto simp: classified_cases split: option.splits cell.splits if_splits)
    then show "classified (column_cells df col ! j) (column_cells df' col ! j)"
      using j len by (simp add: column_cells_def)
  qed
  show "requests s' = requests s @ map (\<lambda>t. (t, col)) (texts (column_cells df col))"
    using process_rows_requests [OF assms] by (simp add: iterrows_props(4))
qed

text \<open>A classified cell stays classified under a further pass.\<close>

lemma classified_trans: "classified a b \<Longrightarrow> classified b c \<Longrightarrow> classified a c"
  by (auto simp: classified_cases split: option.splits cell.splits if_splits)

lemma list_all2_classified_trans:
  "list_all2 classified xs ys \<Longrightarrow> list_all2 classified ys zs \<Longrightarrow> list_all2 classified xs zs"
  by (rule list_all2_trans [where ?P1.0 = classified and ?P2.0 = classified])
     (auto intro: classified_trans)

lemma process_columns_ConsE [consumes 1, case_names absent present]:
  assumes "process_columns E (col # cols) df s = (Inr df', s')"
  obtains
    (absent) "col \<notin> set (columns df)"
      "process_columns E cols df (print (Text (column_warning col)) s) = (Inr df', s')"
  | (present) df1 s1 where "col \<in> set (columns df)"
      "process_rows E col (iterrows df) df (print (Text (nl @ ''Processing column: '' @ col)) s)
         = (Inr df1, s1)"
      "process_columns E cols df1 s1 = (Inr df', s')"
  using assms
  by (auto simp: Let_def split: if_splits prod.splits sum.splits)

lemma process_columns_shape:
  "process_columns E cols df s = (Inr df', s') \<Longrightarrow>
   columns df' = columns df \<and> length (rows df') = length (rows df)"
proof (induction cols arbitrary: df s)
  case Nil
  then show ?case by simp
next
  case (Cons col cols)
  from Cons.prems show ?case
  proof (cases rule: process_columns_ConsE)
    case absent
    from Cons.IH [OF absent(2)] show ?thesis .
  next
    case (present df1 s1)
    from Cons.IH [OF present(3)] pass_column(1,2) [OF present(2)] show ?thesis by simp
  qed
qed

text \<open>Passes over other columns do not touch the cells of a column.\<close>

lemma process_columns_other:
  "process_columns E cols df s = (Inr df', s') \<Longrightarrow> c \<notin> set cols \<Longrightarrow>
   column_cells df' c = column_cells df c"
proof (induction cols arbitrary: df s)
  case Nil
  then show ?case by simp
next
  case (Cons col cols)
  from Cons.prems(2) have ne: "c \<noteq> col" and rest: "c \<notin> set cols" by auto
  from Cons.prems(1) show ?case
  proof (cases rule: process_columns_ConsE)
    case absent
    from Cons.IH [OF absent(2) rest] show ?thesis .
  next
    case (present df1 s1)
    from Cons.IH [OF present(3) rest] pass_column(3) [OF present(2) ne] show ?thesis by simp
  qed
qed

text \<open>Once a column is classified it stays so, whatever is processed next.\<close>

lemma process_columns_keeps:
  "process_columns E cols df s = (Inr df', s') \<Longrightarrow>
   list_all2 classified xs (column_cells df c) \<Longrightarrow>
   list_all2 classified xs (column_cells df' c)"
proof (induction cols arbitrary: df s)
  case Nil
  then show ?case by simp
next
  case (Cons col cols)
  from Cons.prems(1) show ?case
  proof (cases rule: process_columns_ConsE)
    case absent
    from Cons.IH [OF absent(2) Cons.prems(2)] show ?thesis .
  next
    case (present df1 s1)
    have "list_all2 classified xs (column_cells df1 c)"
    proof (cases "c = col")
      case True
      with pass_column(4) [OF present(2)] Cons.prems(2) show ?thesis
        by (auto intro: list_all2_classified_trans)
    next
      case False
      with pass_column(3) [OF present(2)] Cons.prems(2) show ?thesis by simp
    qed
    from Cons.IH [OF present(3) this] show ?thesis .
  qed
qed

lemma process_columns_classifies:
  "process_columns E cols df s = (Inr df', s') \<Longrightarrow> c \<in> set cols \<Longrightarrow> c \<in> set (columns df) \<Longrightarrow>
   list_all2 classified (column_cells df c) (column_cells df' c)"
proof (induction cols arbitrary: df s)
  case Nil
  then show ?case by simp
next
  case (Cons col cols)
  from Cons.prems(1) show ?case
  proof (cases rule: process_columns_ConsE)
    case absent
    with Cons.prems have "c \<in> set cols" by auto
    from Cons.IH [OF absent(2) this Cons.prems(3)] show ?thesis .
  next
    case (present df1 s1)
    show ?thesis
    proof (cases "c = col")
      case True
      from process_columns_keeps [OF present(3)] pass_column(4) [OF present(2)] True
      show ?thesis by simp
    next
      case False
      with Cons.prems have "c \<in> set cols" by auto
      moreover have "c \<in> set (columns df1)"
        using pass_column(1) [OF present(2)] Cons.prems(3) by simp
      ultimately have "list_all2 classified (column_cells df1 c) (column_cells df' c)"
        using Cons.IH [OF present(3)] by simp
      with pass_column(3) [OF present(2) False] show ?thesis by simp
    qed
  qed
qed


lemma requests_for_Nil [simp]: "requests_for c [] = []"
  by (simp add: requests_for_def)

lemma requests_for_append [simp]:
  "requests_for c (xs @ ys) = requests_for c xs @ requests_for c ys"
  by (simp add: requests_for_def)

lemma requests_for_pass [simp]:
  "requests_for c (map (\<lambda>t. (t, col)) ts) = (if col = c then ts else [])"
  by (induction ts) (auto simp: requests_for_def)


section \<open>The column processor\<close>

lemma process_csv_file_success:
  assumes "process_csv_file E csv_path text_columns s = (Inr df', s')"
    and "read_csv E csv_path = Inr df"
  shows "new_agent E = None"
    and "process_columns E text_columns df
           (s\<lparr>files_read := files_read s @ [csv_path], agents_created := agents_created s + 1\<rparr>)
         = (Inr df', s')"
  using assms
  by (auto simp: process_csv_file_def pd_read_csv_def create_contract_risk_agent_def
           split: option.splits)

text \<open>
  C5.  When the column processor returns, every cell of a selected, existing column
  that was missing or the empty string is what it was, and every other cell of that
  column is \<open>Yes\<close> or \<open>No\<close>.
\<close>

theorem processed_column_cells:
  assumes "process_csv_file E csv_path text_columns s = (Inr df', s')"
    and "read_csv E csv_path = Inr df"
    and "col \<in> set text_columns" and "col \<in> set (columns df)"
    and "i < length (rows df)"
  shows "length (rows df') = length (rows df) \<and>
         (map_of (rows df ! i) col = Some NaN \<or> map_of (rows df ! i) col = Some (Str [])
            \<longrightarrow> map_of (rows df' ! i) col = map_of (rows df ! i) col) \<and>
         (map_of (rows df ! i) col \<noteq> Some NaN \<and> map_of (rows df ! i) col \<noteq> Some (Str [])
            \<longrightarrow> map_of (rows df' ! i) col = Some (Str ''Yes'') \<or>
                map_of (rows df' ! i) col = Some (Str ''No''))"
proof -
  note run = process_csv_file_success(2) [OF assms(1,2)]
  have len: "length (rows df') = length (rows df)"
    using process_columns_shape [OF run] by simp
  have "list_all2 classified (column_cells df col) (column_cells df' col)"
    using process_columns_classifies [OF run assms(3,4)] .
  then have "classified (column_cells df col ! i) (column_cells df' col ! i)"
    using assms(5) by (auto simp: column_cells_def dest: list_all2_nthD)
  then have "classified (map_of (rows df ! i) col) (map_of (rows df' ! i) col)"
    using assms(5) len by (simp add: column_cells_def)
  with len show ?thesis
    by (auto simp: classified_cases split: option.splits cell.splits if_splits)
qed

theorem processed_column_cells_witness:
  "fst (process_csv_file scenario_env ''contracts.csv'' [''ClauseText''] (init_sys []))
     = Inr \<lparr>columns = [''ClauseText''],
             rows = [[(''ClauseText'', Str ''Yes'')], [(''ClauseText'', Str [])],
                     [(''ClauseText'', Str ''No'')]]\<rparr> \<and>
   map_of (rows clause_df ! 1) ''ClauseText'' = Some (Str []) \<and>
   map_of (rows clause_df ! 0) ''ClauseText'' = Some (Str ''Payment due on delivery.'') \<and>
   length (rows \<lparr>columns = [''ClauseText''],
             rows = [[(''ClauseText'', Str ''Yes'')], [(''ClauseText'', Str [])],
                     [(''ClauseText'', Str ''No'')]]\<rparr>) = length (rows clause_df)"
proof -
  let ?out = "\<lparr>columns = [''ClauseText''],
             rows = [[(''ClauseText'', Str ''Yes'')], [(''ClauseText'', Str [])],
                     [(''ClauseText'', Str ''No'')]]\<rparr>"
  let ?run = "process_csv_file scenario_env ''contracts.csv'' [''ClauseText''] (init_sys [])"
  have res: "fst ?run = Inr ?out" by code_simp
  then have run: "?run = (Inr ?out, snd ?run)" by (metis prod.collapse)
  have csv: "read_csv scenario_env ''contracts.csv'' = Inr clause_df"
    by (simp add: scenario_env_def stub_env_def clause_csv_def)
  have sel: "''ClauseText'' \<in> set [''ClauseText'']" by simp
  have col: "''ClauseText'' \<in> set (columns clause_df)" by (simp add: clause_df_def)
  have i1: "(1::nat) < length (rows clause_df)" and i0: "(0::nat) < length (rows clause_df)"
    by (simp_all add: clause_df_def)
  have c1: "map_of (rows clause_df ! 1) ''ClauseText'' = Some (Str [])"
    and c0: "map_of (rows clause_df ! 0) ''ClauseText'' = Some (Str ''Payment due on delivery.'')"
    by (simp_all add: clause_df_def)
  from processed_column_cells [OF run csv sel col i1] processed_column_cells [OF run csv sel col i0]
    res c1 c0
  show ?thesis by simp
qed

lemma process_columns_append:
  "process_columns E (xs @ ys) df s =
     (case process_columns E xs df s of
        (Inl e, s1) \<Rightarrow> (Inl e, s1)
      | (Inr df1, s1) \<Rightarrow> process_columns E ys df1 s1)"
  by (induction xs arbitrary: df s) (auto simp: Let_def split: prod.splits sum.splits)

subsection \<open>Runs that do not raise\<close>

text \<open>
  When the backend always replies, the agent can be built, and every row has a cell
  for every column, the loops run to their end.
\<close>

lemma analyze_text_total:
  assumes "\<forall>w text column_name. \<exists>reply w'. kickoff E w text column_name = (Inr reply, w')"
  shows "\<exists>result s'. analyze_text E text column_name s = (Inr result, s')"
proof -
  from assms obtain reply w' where "kickoff E (world s) text column_name = (Inr reply, w')"
    by blast
  from analyze_text_reply [OF this] show ?thesis
    by (simp add: Let_def)
qed

lemma process_rows_total:
  assumes "\<forall>w text column_name. \<exists>reply w'. kickoff E w text column_name = (Inr reply, w')"
  shows "\<forall>(i, row)\<in>set its. col \<in> fst ` set row \<Longrightarrow>
         \<exists>df' s'. process_rows E col its df s = (Inr df', s')"
proof (induction its arbitrary: df s)
  case Nil
  then show ?case by simp
next
  case (Cons a its)
  obtain idx row where a: "a = (idx, row)" by (cases a)
  from Cons.prems a have "col \<in> fst ` set row" and rest: "\<forall>(i, row)\<in>set its. col \<in> fst ` set row"
    by auto
  then obtain v where v: "map_of row col = Some v"
    by (metis domD dom_map_of_conv_image_fst)
  let ?s1 = "print (Text (row_progress col idx (length (rows df)))) s"
  show ?case
  proof (cases v)
    case NaN
    with v a Cons.IH [OF rest, of df ?s1] show ?thesis by (simp add: Let_def)
  next
    case (Str t)
    show ?thesis
    proof (cases "t = []")
      case True
      with Str v a Cons.IH [OF rest, of df ?s1] show ?thesis by (simp add: Let_def)
    next
      case False
      from analyze_text_total [OF assms, of t col ?s1] obtain result s2
        where an: "analyze_text E t col ?s1 = (Inr result, s2)" by blast
      from Cons.IH [OF rest, of "df_at_set df idx col (Str result)" s2] obtain df' s'
        where "process_rows E col its (df_at_set df idx col (Str result)) s2 = (Inr df', s')"
        by blast
      with False Str v a an show ?thesis by (simp add: Let_def)
    qed
  qed
qed

lemma df_at_set_rectangular:
  assumes "\<forall>row\<in>set (rows df). cs \<subseteq> fst ` set row"
  shows "\<forall>row\<in>set (rows (df_at_set df idx col v)). cs \<subseteq> fst ` set row"
proof (cases "idx < length (rows df)")
  case True
  then have old: "cs \<subseteq> fst ` set (rows df ! idx)" using assms by simp
  have "cs \<subseteq> fst ` set (AList.update col v (rows df ! idx))"
    using old by (auto simp: dom_update)
  with assms show ?thesis
    by (auto simp: df_at_set_def dest!: set_update_subset_insert [THEN subsetD])
next
  case False
  then have "(rows df)[idx := AList.update col v (rows df ! idx)] = rows df"
    by (simp add: list_update_beyond)
  with assms show ?thesis by (simp add: df_at_set_def)
qed

lemma process_rows_rectangular:
  "process_rows E col its df s = (Inr df', s') \<Longrightarrow>
   \<forall>row\<in>set (rows df). cs \<subseteq> fst ` set row \<Longrightarrow>
   \<forall>row\<in>set (rows df'). cs \<subseteq> fst ` set row"
proof (induction its arbitrary: df s)
  case Nil
  then show ?case by simp
next
  case (Cons a its)
  obtain idx row where a: "a = (idx, row)" by (cases a)
  from Cons.prems(1) [unfolded a] show ?case
  proof (cases rule: process_rows_ConsE)
    case skip
    from Cons.IH [OF skip(2) Cons.prems(2)] show ?thesis .
  next
    case (classify t result s2)
    from Cons.IH [OF classify(4) df_at_set_rectangular [OF Cons.prems(2)]] show ?thesis .
  qed
qed

lemma process_columns_total:
  assumes "\<forall>w text column_name. \<exists>reply w'. kickoff E w text column_name = (Inr reply, w')"
  shows "\<forall>row\<in>set (rows df). set (columns df) \<subseteq> fst ` set row \<Longrightarrow>
         \<exists>df' s'. process_columns E cols df s = (Inr df', s')"
proof (induction cols arbitrary: df s)
  case Nil
  then show ?case by simp
next
  case (Cons col cols)
  show ?case
  proof (cases "col \<in> set (columns df)")
    case False
    with Cons.IH [OF Cons.prems] show ?thesis by simp
  next
    case True
    let ?s1 = "print (Text (nl @ ''Processing column: '' @ col)) s"
    have "\<forall>(i, row)\<in>set (iterrows df). col \<in> fst ` set row"
      using True Cons.prems by (auto simp: iterrows_def in_set_enumerate_eq)
    from process_rows_total [OF assms this, of df ?s1] obtain df1 s1
      where pass: "process_rows E col (iterrows df) df ?s1 = (Inr df1, s1)" by blast
    have "\<forall>row\<in>set (rows df1). set (columns df) \<subseteq> fst ` set row"
      using process_rows_rectangular [OF pass Cons.prems] .
    then have "\<forall>row\<in>set (rows df1). set (columns df1) \<subseteq> fst ` set row"
      using pass_column(1) [OF pass] by simp
    from Cons.IH [OF this, of s1] obtain df' s'
      where "process_columns E cols df1 s1 = (Inr df', s')" by blast
    with True pass show ?thesis by (simp add: Let_def)
  qed
qed

subsection \<open>What is printed does not matter to the table\<close>

lemma analyze_text_stdout:
  "analyze_text E text column_name s = (r, s') \<Longrightarrow> \<exists>more. stdout s' = stdout s @ more"
  by (auto simp: analyze_text_def crew_kickoff_def print_def Let_def
           split: prod.splits sum.splits if_splits)

lemma process_rows_stdout:
  "process_rows E col its df s = (Inr df', s') \<Longrightarrow> \<exists>more. stdout s' = stdout s @ more"
proof (induction its arbitrary: df s)
  case Nil
  then show ?case by simp
next
  case (Cons a its)
  obtain idx row where a: "a = (idx, row)" by (cases a)
  from Cons.prems(1) [unfolded a] show ?case
  proof (cases rule: process_rows_ConsE)
    case skip
    from Cons.IH [OF skip(2)] show ?thesis by (auto simp: print_def)
  next
    case (classify t result s2)
    from analyze_text_stdout [OF classify(3)] Cons.IH [OF classify(4)] show ?thesis
      by (auto simp: print_def)
  qed
qed

lemma process_columns_stdout:
  "process_columns E cols df s = (Inr df', s') \<Longrightarrow> \<exists>more. stdout s' = stdout s @ more"
proof (induction cols arbitrary: df s)
  case Nil
  then show ?case by simp
next
  case (Cons col cols)
  from Cons.prems show ?case
  proof (cases rule: process_columns_ConsE)
    case absent
    from Cons.IH [OF absent(2)] show ?thesis by (auto simp: print_def)
  next
    case (present df1 s1)
    from process_rows_stdout [OF present(2)] Cons.IH [OF present(3)] show ?thesis
      by (auto simp: print_def)
  qed
qed

text \<open>
  Two states that differ only in what has been printed lead to the same result and
  to states that again differ only there.
\<close>

lemma same_but_stdout:
  "s\<lparr>stdout := []\<rparr> = t\<lparr>stdout := []\<rparr> \<longleftrightarrow> t = s\<lparr>stdout := stdout t\<rparr>"
  by (cases s, cases t) auto

lemma analyze_text_frame:
  assumes "s\<lparr>stdout := []\<rparr> = t\<lparr>stdout := []\<rparr>"
  shows "fst (analyze_text E text column_name s) = fst (analyze_text E text column_name t) \<and>
         (snd (analyze_text E text column_name s))\<lparr>stdout := []\<rparr>
           = (snd (analyze_text E text column_name t))\<lparr>stdout := []\<rparr>"
proof -
  from assms have t: "t = s\<lparr>stdout := stdout t\<rparr>" by (simp only: same_but_stdout)
  show ?thesis
    by (subst t, subst (2) t, cases s)
       (simp add: analyze_text_def crew_kickoff_def print_def Let_def
             split: prod.splits sum.splits)
qed

lemma process_rows_frame:
  "s\<lparr>stdout := []\<rparr> = t\<lparr>stdout := []\<rparr> \<Longrightarrow>
   fst (process_rows E col its df s) = fst (process_rows E col its df t) \<and>
   (snd (process_rows E col its df s))\<lparr>stdout := []\<rparr>
     = (snd (process_rows E col its df t))\<lparr>stdout := []\<rparr>"
proof (induction its arbitrary: df s t)
  case Nil
  then show ?case by simp
next
  case (Cons a its)
  obtain idx row where a: "a = (idx, row)" by (cases a)
  let ?x = "Text (row_progress col idx (length (rows df)))"
  have p: "(print ?x s)\<lparr>stdout := []\<rparr> = (print ?x t)\<lparr>stdout := []\<rparr>"
    using Cons.prems by (simp add: print_def)
  show ?case
  proof (cases "map_of row col")
    case None
    with p a show ?thesis by (simp add: Let_def)
  next
    case (Some v)
    show ?thesis
    proof (cases v)
      case NaN
      with Some a Cons.IH [OF p, of df] show ?thesis by (simp add: Let_def)
    next
      case (Str x)
      show ?thesis
      proof (cases "x = []")
        case True
        with Str Some a Cons.IH [OF p, of df] show ?thesis by (simp add: Let_def)
      next
        case False
        define r where "r = fst (analyze_text E x col (print ?x s))"
        define s1 where "s1 = snd (analyze_text E x col (print ?x s))"
        define s2 where "s2 = snd (analyze_text E x col (print ?x t))"
        note fr = analyze_text_frame [OF p, of E x col]
        have r1: "analyze_text E x col (print ?x s) = (r, s1)"
          by (simp add: r_def s1_def)
        have r2: "analyze_text E x col (print ?x t) = (r, s2)"
          using fr [THEN conjunct1] by (simp add: r_def s2_def)
        have st: "s1\<lparr>stdout := []\<rparr> = s2\<lparr>stdout := []\<rparr>"
          using fr [THEN conjunct2] by (simp only: s1_def s2_def)
        show ?thesis
        proof (cases r)
          case (Inl e)
          with st r1 r2 False Str Some a show ?thesis by (simp add: Let_def)
        next
          case (Inr result)
          with st r1 r2 False Str Some a
            Cons.IH [OF st, of "df_at_set df idx col (Str result)"]
          show ?thesis by (simp add: Let_def)
        qed
      qed
    qed
  qed
qed

lemma process_columns_frame:
  "s\<lparr>stdout := []\<rparr> = t\<lparr>stdout := []\<rparr> \<Longrightarrow>
   fst (process_columns E cols df s) = fst (process_columns E cols df t) \<and>
   (snd (process_columns E cols df s))\<lparr>stdout := []\<rparr>
     = (snd (process_columns E cols df t))\<lparr>stdout := []\<rparr>"
proof (induction cols arbitrary: df s t)
  case Nil
  then show ?case by simp
next
  case (Cons col cols)
  show ?case
  proof (cases "col \<in> set (columns df)")
    case False
    let ?x = "Text (column_warning col)"
    have "(print ?x s)\<lparr>stdout := []\<rparr> = (print ?x t)\<lparr>stdout := []\<rparr>"
      using Cons.prems by (simp add: print_def)
    from Cons.IH [OF this, of df] False show ?thesis by simp
  next
    case True
    let ?x = "Text (nl @ ''Processing column: '' @ col)"
    have p: "(print ?x s)\<lparr>stdout := []\<rparr> = (print ?x t)\<lparr>stdout := []\<rparr>"
      using Cons.prems by (simp add: print_def)
    define r where "r = fst (process_rows E col (iterrows df) df (print ?x s))"
    define s1 where "s1 = snd (process_rows E col (iterrows df) df (print ?x s))"
    define s2 where "s2 = snd (process_rows E col (iterrows df) df (print ?x t))"
    note fr = process_rows_frame [OF p, of E col "iterrows df" df]
    have r1: "process_rows E col (iterrows df) df (print ?x s) = (r, s1)"
      by (simp add: r_def s1_def)
    have r2: "process_rows E col (iterrows df) df (print ?x t) = (r, s2)"
      using fr [THEN conjunct1] by (simp add: r_def s2_def)
    have st: "s1\<lparr>stdout := []\<rparr> = s2\<lparr>stdout := []\<rparr>"
      using fr [THEN conjunct2] by (simp only: s1_def s2_def)
    have step: "process_columns E (col # cols) df u =
        (case process_rows E col (iterrows df) df (print ?x u) of
           (Inl e, s2) \<Rightarrow> (Inl e, s2)
         | (Inr df', s2) \<Rightarrow> process_columns E cols df' s2)" for u
      using True by (simp only: process_columns.simps Let_def simp_thms if_False)
    show ?thesis
    proof (cases r)
      case (Inl e)
      with st show ?thesis unfolding step r1 r2 by simp
    next
      case (Inr df1)
      with st Cons.IH [OF st, of df1] show ?thesis unfolding step r1 r2 by simp
    qed
  qed
qed

lemma process_columns_rectangular:
  "process_columns E cols df s = (Inr df', s') \<Longrightarrow>
   \<forall>row\<in>set (rows df). cs \<subseteq> fst ` set row \<Longrightarrow>
   \<forall>row\<in>set (rows df'). cs \<subseteq> fst ` set row"
proof (induction cols arbitrary: df s)
  case Nil
  then show ?case by simp
next
  case (Cons col cols)
  from Cons.prems(1) show ?case
  proof (cases rule: process_columns_ConsE)
    case absent
    from Cons.IH [OF absent(2) Cons.prems(2)] show ?thesis .
  next
    case (present df1 s1)
    from Cons.IH [OF present(3) process_rows_rectangular [OF present(2) Cons.prems(2)]]
    show ?thesis .
  qed
qed

lemma process_csv_file_columns:
  assumes "read_csv E csv_path = Inr df" and "new_agent E = None"
  shows "process_csv_file E csv_path cols s =
           process_columns E cols df
             (s\<lparr>files_read := files_read s @ [csv_path], agents_created := agents_created s + 1\<rparr>)"
  using assms
  by (simp add: process_csv_file_def pd_read_csv_def create_contract_risk_agent_def)

text \<open>
  C6.  Take a run in which nothing raises: the table is read, the agent is built, the
  backend always replies, and every row has a cell for every column.  If a selected
  column name is not in the table, then the columns before it are processed, the
  warning naming it is printed next, the table reached so far goes on untouched to
  the columns after it, and the run returns.  The table returned is the one the
  same selection without that name gives, and every selected column that exists,
  before or after it, ends classified.
\<close>

theorem absent_column_warned_and_skipped:
  assumes "read_csv E csv_path = Inr df"
    and "new_agent E = None"
    and "\<forall>w text column_name. \<exists>reply w'. kickoff E w text column_name = (Inr reply, w')"
    and "\<forall>row\<in>set (rows df). set (columns df) \<subseteq> fst ` set row"
    and "col \<notin> set (columns df)"
  shows "\<exists>df1 s1 df' s' more.
           process_csv_file E csv_path before s = (Inr df1, s1) \<and>
           process_columns E after df1 (print (Text (column_warning col)) s1) = (Inr df', s') \<and>
           process_csv_file E csv_path (before @ col # after) s = (Inr df', s') \<and>
           stdout s' = stdout s1 @ Text (column_warning col) # more \<and>
           sublist col (column_warning col) \<and>
           fst (process_csv_file E csv_path (before @ after) s) = Inr df' \<and>
           (\<forall>c\<in>set (before @ after). c \<in> set (columns df) \<longrightarrow>
              list_all2 classified (column_cells df c) (column_cells df' c))"
proof -
  let ?s0 = "s\<lparr>files_read := files_read s @ [csv_path], agents_created := agents_created s + 1\<rparr>"
  let ?w = "Text (column_warning col)"
  note unfold = process_csv_file_columns [OF assms(1,2)]
  from process_columns_total [OF assms(3,4), of before ?s0] obtain df1 s1
    where run1: "process_columns E before df ?s0 = (Inr df1, s1)" by blast
  have cols1: "columns df1 = columns df"
    using process_columns_shape [OF run1] by simp
  have rect1: "\<forall>row\<in>set (rows df1). set (columns df1) \<subseteq> fst ` set row"
    using process_columns_rectangular [OF run1 assms(4)] cols1 by simp
  from process_columns_total [OF assms(3) rect1, of after "print ?w s1"] obtain df' s'
    where run2: "process_columns E after df1 (print ?w s1) = (Inr df', s')" by blast
  have absent1: "col \<notin> set (columns df1)" using assms(5) cols1 by simp
  have whole: "process_columns E (before @ col # after) df ?s0 = (Inr df', s')"
    using run1 run2 absent1 by (simp add: process_columns_append)
  from process_columns_stdout [OF run2] obtain more
    where out: "stdout s' = stdout s1 @ Text (column_warning col) # more"
    by (auto simp: print_def)
  have name: "sublist col (column_warning col)"
    unfolding column_warning_def sublist_def by (metis append_assoc)
  have "(print ?w s1)\<lparr>stdout := []\<rparr> = s1\<lparr>stdout := []\<rparr>"
    by (simp add: print_def)
  from process_columns_frame [OF this, of E after df1, THEN conjunct1] run2
  have "fst (process_columns E after df1 s1) = Inr df'" by simp
  then have without: "fst (process_columns E (before @ after) df ?s0) = Inr df'"
    using run1 by (simp add: process_columns_append)
  have classes: "\<forall>c\<in>set (before @ after). c \<in> set (columns df) \<longrightarrow>
              list_all2 classified (column_cells df c) (column_cells df' c)"
  proof (intro ballI impI)
    fix c assume "c \<in> set (before @ after)" and c: "c \<in> set (columns df)"
    then have "c \<in> set (before @ col # after)" by auto
    from process_columns_classifies [OF whole this c]
    show "list_all2 classified (column_cells df c) (column_cells df' c)" .
  qed
  have a: "process_csv_file E csv_path before s = (Inr df1, s1)"
    unfolding unfold by (rule run1)
  have b: "process_csv_file E csv_path (before @ col # after) s = (Inr df', s')"
    unfolding unfold by (rule whole)
  have c: "fst (process_csv_file E csv_path (before @ after) s) = Inr df'"
    unfolding unfold by (rule without)
  from a run2 b out name c classes show ?thesis by blast
qed

theorem absent_column_warned_and_skipped_witness:
  "Text (column_warning ''Zip'')
     \<in> set (stdout (snd (process_csv_file scenario_env ''contracts.csv''
                            ([] @ ''Zip'' # [''ClauseText'']) (init_sys [])))) \<and>
   fst (process_csv_file scenario_env ''contracts.csv'' ([] @ [''ClauseText'']) (init_sys []))
     = fst (process_csv_file scenario_env ''contracts.csv''
              ([] @ ''Zip'' # [''ClauseText'']) (init_sys [])) \<and>
   fst (process_csv_file scenario_env ''contracts.csv''
          ([] @ ''Zip'' # [''ClauseText'']) (init_sys []))
     = Inr \<lparr>columns = [''ClauseText''],
             rows = [[(''ClauseText'', Str ''Yes'')], [(''ClauseText'', Str [])],
                     [(''ClauseText'', Str ''No'')]]\<rparr> \<and>
   list_all2 classified (column_cells clause_df ''ClauseText'')
     (column_cells \<lparr>columns = [''ClauseText''],
             rows = [[(''ClauseText'', Str ''Yes'')], [(''ClauseText'', Str [])],
                     [(''ClauseText'', Str ''No'')]]\<rparr> ''ClauseText'')"
proof -
  let ?run = "process_csv_file scenario_env ''contracts.csv''
                ([] @ ''Zip'' # [''ClauseText'']) (init_sys [])"
  let ?out = "\<lparr>columns = [''ClauseText''],
             rows = [[(''ClauseText'', Str ''Yes'')], [(''ClauseText'', Str [])],
                     [(''ClauseText'', Str ''No'')]]\<rparr>"
  have csv: "read_csv scenario_env ''contracts.csv'' = Inr clause_df"
    by (simp add: scenario_env_def stub_env_def clause_csv_def)
  have agent: "new_agent scenario_env = None"
    by (simp add: scenario_env_def stub_env_def)
  have replies: "\<forall>w text column_name. \<exists>reply w'.
      kickoff scenario_env w text column_name = (Inr reply, w')"
    by (simp add: scenario_env_def stub_env_def)
  have rect: "\<forall>row\<in>set (rows clause_df). set (columns clause_df) \<subseteq> fst ` set row"
    by (simp add: clause_df_def)
  have absent: "''Zip'' \<notin> set (columns clause_df)" by (simp add: clause_df_def)
  have present: "''ClauseText'' \<in> set ([] @ [''ClauseText''])"
    and col: "''ClauseText'' \<in> set (columns clause_df)"
    by (simp_all add: clause_df_def)
  have res: "fst ?run = Inr ?out" by code_simp
  note T = absent_column_warned_and_skipped [OF csv agent replies rect absent,
      where before = "[]" and after = "[''ClauseText'']" and s = "init_sys []"]
  from T show ?thesis
  proof (elim exE conjE)
    fix df1 s1 df' s' more
    assume "process_csv_file scenario_env ''contracts.csv'' [] (init_sys []) = (Inr df1, s1)"
      and "process_columns scenario_env [''ClauseText''] df1
             (print (Text (column_warning ''Zip'')) s1) = (Inr df', s')"
      and run: "?run = (Inr df', s')"
      and out: "stdout s' = stdout s1 @ Text (column_warning ''Zip'') # more"
      and "sublist ''Zip'' (column_warning ''Zip'')"
      and without: "fst (process_csv_file scenario_env ''contracts.csv'' ([] @ [''ClauseText''])
                    (init_sys [])) = Inr df'"
      and classes: "\<forall>c\<in>set ([] @ [''ClauseText'']). c \<in> set (columns clause_df) \<longrightarrow>
              list_all2 classified (column_cells clause_df c) (column_cells df' c)"
    have df': "df' = ?out" using run res by (simp only: fst_conv sum.inject)
    have warned: "Text (column_warning ''Zip'') \<in> set (stdout (snd ?run))"
      unfolding run snd_conv out by simp
    have same: "fst (process_csv_file scenario_env ''contracts.csv'' ([] @ [''ClauseText''])
                    (init_sys [])) = fst ?run"
      unfolding run fst_conv by (rule without)
    have cl: "list_all2 classified (column_cells clause_df ''ClauseText'')
              (column_cells ?out ''ClauseText'')"
      using classes [THEN bspec, OF present, THEN mp, OF col] unfolding df' .
    show ?thesis
      by (rule conjI [OF warned conjI [OF same conjI [OF res cl]]])
  qed
qed


section \<open>The interactive driver\<close>



lemma fold_print:
  "fold (\<lambda>(i, col). print (Text (h i col))) xs s
     = s\<lparr>stdout := stdout s @ map (\<lambda>(i, col). Text (h i col)) xs\<rparr>"
proof (induction xs arbitrary: s)
  case Nil
  then show ?case by simp
next
  case (Cons x xs)
  then show ?case by (cases x) (simp add: print_def)
qed

lemma main_selection:
  assumes "stdin s = csv_path # col_input # rest"
    and "path_exists E csv_path"
    and "read_csv E csv_path = Inr df"
  shows "main E s =
     (let s4 = s\<lparr>files_read := files_read s @ [csv_path],
                  stdout := stdout s @ prompts_shown df, stdin := rest\<rparr>
      in case col_indices_of (str_split (CHR '','') col_input) of
           Inl e \<Rightarrow> (Inr (), print (Text (''An error occurred: '' @ str_exn E e)) s4)
         | Inr col_indices \<Rightarrow>
             if text_columns_of df col_indices = []
             then (Inr (), print (Text ''No valid columns selected.'') s4)
             else (case classify_and_save E csv_path (text_columns_of df col_indices) s4 of
                     (Inl e, s5) \<Rightarrow> (Inr (), print (Text (''An error occurred: '' @ str_exn E e)) s5)
                   | (Inr u, s5) \<Rightarrow> (Inr (), s5)))"
proof -
  let ?s2 = "s\<lparr>stdout := stdout s @ take 4 (prompts_shown df),
               stdin := col_input # rest\<rparr>"
  let ?s4 = "s\<lparr>files_read := files_read s @ [csv_path],
               stdout := stdout s @ prompts_shown df, stdin := rest\<rparr>"
  have first: "main E s =
      (case main_try E csv_path ?s2 of
         (Inl e, s3) \<Rightarrow> (Inr (), print (Text (''An error occurred: '' @ str_exn E e)) s3)
       | (Inr u, s3) \<Rightarrow> (Inr (), s3))"
    using assms(1,2) by (simp add: main_def input_def print_def prompts_shown_def)
  have second: "main_try E csv_path ?s2 =
      (case col_indices_of (str_split (CHR '','') col_input) of
         Inl e \<Rightarrow> (Inl e, ?s4)
       | Inr col_indices \<Rightarrow>
           if text_columns_of df col_indices = []
           then (Inr (), print (Text ''No valid columns selected.'') ?s4)
           else classify_and_save E csv_path (text_columns_of df col_indices) ?s4)"
    using assms(3)
    by (simp add: main_try_def pd_read_csv_def input_def print_def prompts_shown_def fold_print
             Let_def split: sum.splits)
  show ?thesis
    unfolding first second by (simp add: Let_def split: sum.splits)
qed

lemma print_after_prompts:
  "print x (s\<lparr>files_read := fr, stdout := out, stdin := inp\<rparr>)
     = s\<lparr>files_read := fr, stdout := out @ [x], stdin := inp\<rparr>"
  by (cases s) (simp add: print_def)

lemma text_columns_of_filter:
  "text_columns_of df col_indices =
     map (\<lambda>idx. columns df ! nat idx)
       (filter (\<lambda>idx. 0 \<le> idx \<and> idx < int (length (columns df))) col_indices)"
  unfolding text_columns_of_def by (induction col_indices) auto

lemma text_columns_of_empty:
  "text_columns_of df col_indices = [] \<longleftrightarrow>
     (\<forall>idx\<in>set col_indices. \<not> (0 \<le> idx \<and> idx < int (length (columns df))))"
  unfolding text_columns_of_filter by (auto simp: filter_empty_conv)

lemma main_selected:
  assumes "stdin s = csv_path # col_input # rest"
    and "path_exists E csv_path"
    and "read_csv E csv_path = Inr df"
    and "col_indices_of (str_split (CHR '','') col_input) = Inr col_indices"
  shows "text_columns_of df col_indices = [] \<Longrightarrow>
           main E s =
             (Inr (), s\<lparr>files_read := files_read s @ [csv_path],
                        stdout := stdout s @ prompts_shown df @ [Text ''No valid columns selected.''],
                        stdin := rest\<rparr>)"
    and "text_columns_of df col_indices \<noteq> [] \<Longrightarrow>
           main E s =
             (case classify_and_save E csv_path (text_columns_of df col_indices)
                     (s\<lparr>files_read := files_read s @ [csv_path],
                        stdout := stdout s @ prompts_shown df, stdin := rest\<rparr>) of
                (Inl e, s5) \<Rightarrow> (Inr (), print (Text (''An error occurred: '' @ str_exn E e)) s5)
              | (Inr u, s5) \<Rightarrow> (Inr (), s5))"
proof -
  note sel = main_selection [OF assms(1-3), unfolded Let_def assms(4) sum.case]
  show "main E s =
             (Inr (), s\<lparr>files_read := files_read s @ [csv_path],
                        stdout := stdout s @ prompts_shown df @ [Text ''No valid columns selected.''],
                        stdin := rest\<rparr>)"
    if "text_columns_of df col_indices = []"
    unfolding sel using that by (simp only: simp_thms if_True print_after_prompts append_assoc)
  show "main E s =
             (case classify_and_save E csv_path (text_columns_of df col_indices)
                     (s\<lparr>files_read := files_read s @ [csv_path],
                        stdout := stdout s @ prompts_shown df, stdin := rest\<rparr>) of
                (Inl e, s5) \<Rightarrow> (Inr (), print (Text (''An error occurred: '' @ str_exn E e)) s5)
              | (Inr u, s5) \<Rightarrow> (Inr (), s5))"
    if "text_columns_of df col_indices \<noteq> []"
    unfolding sel using that by (simp only: simp_thms if_False)
qed

text \<open>
  C7.  When every token of the selection is an integer, the selected columns are the
  names at the indices in range, in the order given; the indices out of range leave no
  trace.  If none is in range, \<open>main\<close> prints its message and returns: no request, no
  agent, nothing written.  Otherwise it goes on to classify exactly the names in
  range, having printed nothing but its prompts.  (The indices are the numbers typed
  minus one.)
\<close>

theorem out_of_range_indices_dropped:
  assumes "stdin s = csv_path # col_input # rest"
    and "path_exists E csv_path"
    and "read_csv E csv_path = Inr df"
    and "col_indices_of (str_split (CHR '','') col_input) = Inr col_indices"
  shows "text_columns_of df col_indices =
           map (\<lambda>idx. columns df ! nat idx)
             (filter (\<lambda>idx. 0 \<le> idx \<and> idx < int (length (columns df))) col_indices) \<and>
         ((\<forall>idx\<in>set col_indices. \<not> (0 \<le> idx \<and> idx < int (length (columns df)))) \<longrightarrow>
            main E s =
              (Inr (), s\<lparr>files_read := files_read s @ [csv_path],
                         stdout := stdout s @ prompts_shown df @ [Text ''No valid columns selected.''],
                         stdin := rest\<rparr>)) \<and>
         ((\<exists>idx\<in>set col_indices. 0 \<le> idx \<and> idx < int (length (columns df))) \<longrightarrow>
            main E s =
              (case classify_and_save E csv_path (text_columns_of df col_indices)
                      (s\<lparr>files_read := files_read s @ [csv_path],
                         stdout := stdout s @ prompts_shown df, stdin := rest\<rparr>) of
                 (Inl e, s5) \<Rightarrow> (Inr (), print (Text (''An error occurred: '' @ str_exn E e)) s5)
               | (Inr u, s5) \<Rightarrow> (Inr (), s5)))"
proof (intro conjI impI)
  show "text_columns_of df col_indices =
           map (\<lambda>idx. columns df ! nat idx)
             (filter (\<lambda>idx. 0 \<le> idx \<and> idx < int (length (columns df))) col_indices)"
    by (rule text_columns_of_filter)
next
  assume "\<forall>idx\<in>set col_indices. \<not> (0 \<le> idx \<and> idx < int (length (columns df)))"
  then have "text_columns_of df col_indices = []"
    by (simp only: text_columns_of_empty)
  then show "main E s =
              (Inr (), s\<lparr>files_read := files_read s @ [csv_path],
                         stdout := stdout s @ prompts_shown df @ [Text ''No valid columns selected.''],
                         stdin := rest\<rparr>)"
    by (rule main_selected(1) [OF assms])
next
  assume "\<exists>idx\<in>set col_indices. 0 \<le> idx \<and> idx < int (length (columns df))"
  then have "text_columns_of df col_indices \<noteq> []"
    unfolding text_columns_of_empty by blast
  then show "main E s =
              (case classify_and_save E csv_path (text_columns_of df col_indices)
                      (s\<lparr>files_read := files_read s @ [csv_path],
                         stdout := stdout s @ prompts_shown df, stdin := rest\<rparr>) of
                 (Inl e, s5) \<Rightarrow> (Inr (), print (Text (''An error occurred: '' @ str_exn E e)) s5)
               | (Inr u, s5) \<Rightarrow> (Inr (), s5))"
    by (rule main_selected(2) [OF assms])
qed

theorem out_of_range_indices_dropped_witness:
  "col_indices_of (str_split (CHR '','') ''0, 7'') = Inr [- 1, 6] \<and>
   main scenario_env (init_sys [''contracts.csv'', ''0, 7'']) =
     (Inr (), (init_sys [''contracts.csv'', ''0, 7''])
                \<lparr>files_read := files_read (init_sys [''contracts.csv'', ''0, 7'']) @ [''contracts.csv''],
                 stdout := stdout (init_sys [''contracts.csv'', ''0, 7'']) @ prompts_shown clause_df
                             @ [Text ''No valid columns selected.''],
                 stdin := []\<rparr>) \<and>
   col_indices_of (str_split (CHR '','') ''7,1'') = Inr [6, 0] \<and>
   text_columns_of clause_df [6, 0] = [''ClauseText''] \<and>
   main scenario_env (init_sys [''contracts.csv'', ''7,1'', []]) =
     (case classify_and_save scenario_env ''contracts.csv'' (text_columns_of clause_df [6, 0])
             ((init_sys [''contracts.csv'', ''7,1'', []])
                \<lparr>files_read := files_read (init_sys [''contracts.csv'', ''7,1'', []]) @ [''contracts.csv''],
                 stdout := stdout (init_sys [''contracts.csv'', ''7,1'', []]) @ prompts_shown clause_df,
                 stdin := [[]]\<rparr>) of
        (Inl e, s5) \<Rightarrow> (Inr (), print (Text (''An error occurred: '' @ str_exn scenario_env e)) s5)
      | (Inr u, s5) \<Rightarrow> (Inr (), s5))"
proof -
  have ex: "path_exists scenario_env ''contracts.csv''"
    by (simp add: scenario_env_def stub_env_def clause_csv_def)
  have csv: "read_csv scenario_env ''contracts.csv'' = Inr clause_df"
    by (simp add: scenario_env_def stub_env_def clause_csv_def)
  have in1: "stdin (init_sys [''contracts.csv'', ''0, 7'']) = ''contracts.csv'' # ''0, 7'' # []"
    by (simp add: init_sys_def)
  have in2: "stdin (init_sys [''contracts.csv'', ''7,1'', []]) = ''contracts.csv'' # ''7,1'' # [[]]"
    by (simp add: init_sys_def)
  have p1: "col_indices_of (str_split (CHR '','') ''0, 7'') = Inr [- 1, 6]" by code_simp
  have p2: "col_indices_of (str_split (CHR '','') ''7,1'') = Inr [6, 0]" by code_simp
  have none: "\<forall>idx\<in>set [- 1, 6 :: int]. \<not> (0 \<le> idx \<and> idx < int (length (columns clause_df)))"
    by (simp add: clause_df_def)
  have some: "\<exists>idx\<in>set [6, 0 :: int]. 0 \<le> idx \<and> idx < int (length (columns clause_df))"
    by (simp add: clause_df_def)
  have sel: "text_columns_of clause_df [6, 0] = [''ClauseText'']"
    by (simp add: text_columns_of_def clause_df_def)
  note first = out_of_range_indices_dropped [OF in1 ex csv p1]
  note second = out_of_range_indices_dropped [OF in2 ex csv p2]
  note a = mp [OF first [THEN conjunct2, THEN conjunct1] none]
  note b = mp [OF second [THEN conjunct2, THEN conjunct2] some]
  show ?thesis
    by (rule conjI [OF p1 conjI [OF a conjI [OF p2 conjI [OF sel b]]]])
qed

lemma py_int_error: "py_int x = Inl e \<Longrightarrow> e = IntValueError x"
  by (simp add: py_int_def Let_def split: if_splits)

lemma col_indices_of_error:
  "tok \<in> set toks \<Longrightarrow> py_int (strip tok) = Inl e0 \<Longrightarrow>
   \<exists>bad\<in>set toks. col_indices_of toks = Inl (IntValueError (strip bad))"
proof (induction toks)
  case Nil
  then show ?case by simp
next
  case (Cons t toks)
  show ?case
  proof (cases "py_int (strip t)")
    case (Inl e)
    with py_int_error [OF Inl] show ?thesis by simp
  next
    case (Inr n)
    with Cons.prems have "tok \<in> set toks" by auto
    from Cons.IH [OF this Cons.prems(2)] obtain bad
      where "bad \<in> set toks" "col_indices_of toks = Inl (IntValueError (strip bad))" by blast
    with Inr show ?thesis by auto
  qed
qed

text \<open>
  C9.  When some token of the selection is not an integer, \<open>main\<close> ends in its
  \<open>except\<close> branch: after the prompts it prints only the generic error line, for the
  \<open>ValueError\<close> that \<open>int()\<close> raised on the first such token, and returns with no
  request sent, no agent built and nothing written.
\<close>

theorem unparseable_token_is_reported:
  assumes "stdin s = csv_path # col_input # rest"
    and "path_exists E csv_path"
    and "read_csv E csv_path = Inr df"
    and "tok \<in> set (str_split (CHR '','') col_input)"
    and "py_int (strip tok) = Inl e0"
  shows "\<exists>bad\<in>set (str_split (CHR '','') col_input).
           main E s =
             (Inr (), s\<lparr>files_read := files_read s @ [csv_path],
                        stdout := stdout s @ prompts_shown df
                          @ [Text (''An error occurred: '' @ str_exn E (IntValueError (strip bad)))],
                        stdin := rest\<rparr>)"
proof -
  from col_indices_of_error [OF assms(4,5)] obtain bad
    where bad: "bad \<in> set (str_split (CHR '','') col_input)"
      and err: "col_indices_of (str_split (CHR '','') col_input) = Inl (IntValueError (strip bad))"
    by blast
  have "main E s =
             (Inr (), s\<lparr>files_read := files_read s @ [csv_path],
                        stdout := stdout s @ prompts_shown df
                          @ [Text (''An error occurred: '' @ str_exn E (IntValueError (strip bad)))],
                        stdin := rest\<rparr>)"
    unfolding main_selection [OF assms(1-3), unfolded Let_def err sum.case]
    by (simp only: print_after_prompts append_assoc)
  with bad show ?thesis by blast
qed

theorem unparseable_token_is_reported_witness:
  "str_split (CHR '','') [] = [[]] \<and> py_int (strip []) = Inl (IntValueError []) \<and>
   main scenario_env (init_sys [''contracts.csv'', []]) =
     (Inr (), (init_sys [''contracts.csv'', []])
                \<lparr>files_read := files_read (init_sys [''contracts.csv'', []]) @ [''contracts.csv''],
                 stdout := stdout (init_sys [''contracts.csv'', []]) @ prompts_shown clause_df
                   @ [Text (''An error occurred: ''
                              @ str_exn scenario_env (IntValueError (strip [])))],
                 stdin := []\<rparr>)"
proof -
  have ex: "path_exists scenario_env ''contracts.csv''"
    by (simp add: scenario_env_def stub_env_def clause_csv_def)
  have csv: "read_csv scenario_env ''contracts.csv'' = Inr clause_df"
    by (simp add: scenario_env_def stub_env_def clause_csv_def)
  have inp: "stdin (init_sys [''contracts.csv'', []]) = ''contracts.csv'' # [] # []"
    by (simp add: init_sys_def)
  have toks: "str_split (CHR '','') [] = [[]]" by simp
  have mem: "[] \<in> set (str_split (CHR '','') [])" by simp
  have bad: "py_int (strip []) = Inl (IntValueError [])" by code_simp
  from unparseable_token_is_reported [OF inp ex csv mem bad] obtain b
    where b: "b \<in> set (str_split (CHR '','') [])"
      and run: "main scenario_env (init_sys [''contracts.csv'', []]) =
     (Inr (), (init_sys [''contracts.csv'', []])
                \<lparr>files_read := files_read (init_sys [''contracts.csv'', []]) @ [''contracts.csv''],
                 stdout := stdout (init_sys [''contracts.csv'', []]) @ prompts_shown clause_df
                   @ [Text (''An error occurred: ''
                              @ str_exn scenario_env (IntValueError (strip b)))],
                 stdin := []\<rparr>)"
    by (rule bexE)
  from b have "b = []" by simp
  with run toks bad show ?thesis by (simp only: simp_thms)
qed



section \<open>Startup check\<close>

text \<open>
  C8.  When the API key, looked up after \<open>load_dotenv()\<close>, is missing or empty, running
  the module raises \<open>ValueError\<close> and leaves the state as it was: no reference document
  or table read, no agent built, no request sent, nothing printed or written.
\<close>

theorem missing_api_key_is_fatal:
  assumes "load_dotenv (dotenv E) (os_environ E) ''OPENAI_API_KEY'' = None \<or>
           load_dotenv (dotenv E) (os_environ E) ''OPENAI_API_KEY'' = Some []"
  shows "run_module E s = (Inl (ValueError ''OPENAI_API_KEY environment variable is not set''), s)"
  using assms by (simp only: run_module_def Let_def if_True)

theorem missing_api_key_is_fatal_witness:
  "load_dotenv (dotenv (scenario_env\<lparr>os_environ := Map.empty\<rparr>))
     (os_environ (scenario_env\<lparr>os_environ := Map.empty\<rparr>)) ''OPENAI_API_KEY'' = None \<and>
   run_module (scenario_env\<lparr>os_environ := Map.empty\<rparr>) (init_sys [''contracts.csv''])
     = (Inl (ValueError ''OPENAI_API_KEY environment variable is not set''),
        init_sys [''contracts.csv'']) \<and>
   load_dotenv (dotenv (scenario_env\<lparr>os_environ := [''OPENAI_API_KEY'' \<mapsto> []],
                                     dotenv := [''OPENAI_API_KEY'' \<mapsto> ''sk-test'']\<rparr>))
     (os_environ (scenario_env\<lparr>os_environ := [''OPENAI_API_KEY'' \<mapsto> []],
                                dotenv := [''OPENAI_API_KEY'' \<mapsto> ''sk-test'']\<rparr>))
     ''OPENAI_API_KEY'' = Some [] \<and>
   run_module (scenario_env\<lparr>os_environ := [''OPENAI_API_KEY'' \<mapsto> []],
                            dotenv := [''OPENAI_API_KEY'' \<mapsto> ''sk-test'']\<rparr>)
       (init_sys [''contracts.csv''])
     = (Inl (ValueError ''OPENAI_API_KEY environment variable is not set''),
        init_sys [''contracts.csv''])"
proof -
  have absent: "load_dotenv (dotenv (scenario_env\<lparr>os_environ := Map.empty\<rparr>))
     (os_environ (scenario_env\<lparr>os_environ := Map.empty\<rparr>)) ''OPENAI_API_KEY'' = None"
    by (simp add: load_dotenv_def scenario_env_def stub_env_def)
  have empty: "load_dotenv (dotenv (scenario_env\<lparr>os_environ := [''OPENAI_API_KEY'' \<mapsto> []],
                                     dotenv := [''OPENAI_API_KEY'' \<mapsto> ''sk-test'']\<rparr>))
     (os_environ (scenario_env\<lparr>os_environ := [''OPENAI_API_KEY'' \<mapsto> []],
                                dotenv := [''OPENAI_API_KEY'' \<mapsto> ''sk-test'']\<rparr>))
     ''OPENAI_API_KEY'' = Some []"
    by (simp add: load_dotenv_def scenario_env_def stub_env_def)
  from missing_api_key_is_fatal [OF disjI1 [OF absent]] missing_api_key_is_fatal [OF disjI2 [OF empty]]
    absent empty
  show ?thesis by blast
qed

end
